theory Spec2Isabelle
  imports Complex_Main
begin

section \<open>The miner's training-and-publish lifecycle (neurons/miner.py)\<close>

text \<open>
  The development embeds \<^verbatim>\<open>load_starting_model\<close> and \<^verbatim>\<open>main\<close> of
  \<^verbatim>\<open>neurons/miner.py\<close>. Every call into a collaborator (chain, registry,
  artifact hub, telemetry, optimizer, checkpoint store) is an event of a trace, in
  program order; the Python locals of \<^verbatim>\<open>main\<close> are a record that is passed
  along; each \<^verbatim>\<open>raise\<close> is a value of the type \<open>error\<close>.
\<close>

subsection \<open>Python floats\<close>

text \<open>
  Losses and the upload threshold are Python floats. The finite ones are idealised as
  reals (rounding and overflow are not modelled); the three special values are kept,
  because \<^verbatim>\<open>best_avg_loss\<close> starts at \<^verbatim>\<open>math.inf\<close> and a loss can be
  \<^verbatim>\<open>nan\<close>. Comparisons follow IEEE 754: every comparison with \<^verbatim>\<open>nan\<close> is
  false.
\<close>

datatype pyfloat = Fin real | PInf | NInf | NaN

fun flt_lt :: "pyfloat \<Rightarrow> pyfloat \<Rightarrow> bool" where
  "flt_lt (Fin a) (Fin b) = (a < b)"
| "flt_lt (Fin a) PInf = True"
| "flt_lt NInf (Fin b) = True"
| "flt_lt NInf PInf = True"
| "flt_lt _ _ = False"

text \<open>Python's \<^verbatim>\<open>a >= b\<close> on floats.\<close>

fun flt_ge :: "pyfloat \<Rightarrow> pyfloat \<Rightarrow> bool" where
  "flt_ge NaN _ = False"
| "flt_ge _ NaN = False"
| "flt_ge a b = (a = b \<or> flt_lt b a)"

fun flt_add :: "pyfloat \<Rightarrow> pyfloat \<Rightarrow> pyfloat" where
  "flt_add (Fin a) (Fin b) = Fin (a + b)"
| "flt_add NaN _ = NaN"
| "flt_add _ NaN = NaN"
| "flt_add PInf NInf = NaN"
| "flt_add NInf PInf = NaN"
| "flt_add PInf _ = PInf"
| "flt_add _ PInf = PInf"
| "flt_add NInf _ = NInf"
| "flt_add _ NInf = NInf"

text \<open>
  \<^verbatim>\<open>epoch_loss / n_batches\<close> for a positive count; the caller raises
  \<^verbatim>\<open>ZeroDivisionError\<close> when the count is zero.
\<close>

fun flt_div_nat :: "pyfloat \<Rightarrow> nat \<Rightarrow> pyfloat" where
  "flt_div_nat (Fin a) n = Fin (a / real n)"
| "flt_div_nat x n = x"

subsection \<open>Configuration, environment, events and errors\<close>

text \<open>
  The options of \<^verbatim>\<open>get_config\<close> that the control flow reads. An option without a
  value is \<open>None\<close>, as argparse leaves it.
\<close>

record config =
  offline :: bool
  wandb_project :: "string option"
  wandb_entity :: "string option"
  avg_loss_upload_threshold :: pyfloat
  load_best :: bool
  load_uid :: "int option"
  load_model_dir :: "string option"
  load_model :: "string option"
  num_epochs :: int
  accumulation_steps :: int
  competition_id :: nat

text \<open>
  The loader of one epoch, as the loop sees it: each element is one micro-batch with the
  unscaled loss \<^verbatim>\<open>outputs.loss\<close> the model computes on it, or an exception raised
  from outside while the micro-batch is processed (an operator's interrupt or a task
  cancellation).
\<close>

datatype batch = Batch pyfloat | Interrupt

text \<open>
  What the run finds outside itself. \<open>constraints\<close> is the table
  \<^verbatim>\<open>constants.MODEL_CONSTRAINTS_BY_COMPETITION_ID\<close> (its entries are objects, so
  an entry is truthy); \<open>run_dir\<close> is \<^verbatim>\<open>pt.mining.model_path(config.model_dir, run_id)\<close>;
  \<open>feed\<close> lists, epoch by epoch, what the data loader yields.
\<close>

record env =
  constraints :: "nat \<Rightarrow> (string \<times> string) list option"
  registered :: bool
  hf_access_token :: bool
  wandb_api_key :: "string option"
  run_dir :: string
  push_succeeds :: bool
  feed :: "batch list list"

text \<open>The model sources of \<^verbatim>\<open>load_starting_model\<close>, named by the loader called.\<close>

datatype source =
    BestModel
  | RemoteModel int
  | LocalModel string
  | Gpt2Model string
  | FromScratch

text \<open>A micro-batch is identified by the epoch it belongs to and its index in the epoch.\<close>

type_synonym batch_id = "int \<times> nat"

datatype event =
    CreateWallet
  | ConnectSubtensor
  | SyncMetagraph
  | AssertRegistered
  | AssertAccessToken
  | MakeDirs string
  | LoadTokenizer
  | LoadModel source
  | SaveCheckpoint string
  | WandbLogin
  | WandbInit
  | WandbSave
  | WandbLog
  | WandbFinish
  | EpochBegin
  | ZeroGrad
  | Backward batch_id
  | OptimizerStep "batch_id list"
  | LogFinished
  | LogUploading
  | LoadLocalModel string
  | Push
  | LogSkippedThreshold
  | LogSkippedOffline

datatype error =
    NotRegistered
  | NoAccessToken
  | RuntimeError
  | ValueError
  | ZeroDivisionError
  | KeyboardInterrupt
  | PushFailed

subsection \<open>Selecting the starting model\<close>

text \<open>Python truthiness of an optional string: \<^verbatim>\<open>None\<close> and \<^verbatim>\<open>""\<close> are false.\<close>

fun truthy :: "string option \<Rightarrow> bool" where
  "truthy None = False"
| "truthy (Some s) = (s \<noteq> [])"

definition load_starting_model :: "config \<Rightarrow> source" where
  "load_starting_model c =
     (if load_best c then BestModel
      else case load_uid c of
        Some uid \<Rightarrow> RemoteModel uid
      | None \<Rightarrow>
          if truthy (load_model_dir c) then LocalModel (the (load_model_dir c))
          else if truthy (load_model c) then Gpt2Model (the (load_model c))
          else FromScratch)"

subsection \<open>The training loop\<close>

text \<open>
  The locals of \<^verbatim>\<open>main\<close> that the loop updates. \<open>grads\<close> stands for the
  optimizer's gradient buffer: the micro-batches whose gradients \<^verbatim>\<open>loss.backward()\<close>
  has added to it since it was last cleared.
\<close>

record vars =
  epoch_step :: int
  global_step :: nat
  n_acc_steps :: nat
  best_avg_loss :: pyfloat
  epoch_loss :: pyfloat
  n_batches :: nat
  grads :: "batch_id list"

text \<open>The assignments of lines 328 to 331, with an optimizer that has seen no gradient.\<close>

definition init_vars :: vars where
  "init_vars =
     \<lparr>epoch_step = 0, global_step = 0, n_acc_steps = 0, best_avg_loss = PInf,
      epoch_loss = Fin 0, n_batches = 0, grads = []\<rparr>"

text \<open>
  The body of \<^verbatim>\<open>for i, batch in enumerate(loader)\<close> on the rest of the loader,
  \<open>i\<close> being the index of its first micro-batch. The result is the events emitted,
  the exception that ended the loop (if any) and the locals at that point. With
  \<^verbatim>\<open>accumulation_steps = 0\<close> the scaled loss is a tensor division (no exception),
  and \<^verbatim>\<open>(i + 1) % accumulation_steps\<close> raises. Python's \<^verbatim>\<open>%\<close> on integers
  takes the sign of the divisor, as \<open>mod\<close> on \<open>int\<close> does.
\<close>

fun batches_loop ::
  "int \<Rightarrow> bool \<Rightarrow> nat \<Rightarrow> batch list \<Rightarrow> vars \<Rightarrow> event list \<times> error option \<times> vars" where
  "batches_loop k use_wandb i [] v = ([], None, v)"
| "batches_loop k use_wandb i (Interrupt # bs) v = ([], Some KeyboardInterrupt, v)"
| "batches_loop k use_wandb i (Batch loss # bs) v =
     (let v1 = v\<lparr>grads := grads v @ [(epoch_step v, i)]\<rparr> in
      if k = 0 then ([Backward (epoch_step v, i)], Some ZeroDivisionError, v1)
      else
        let applies = ((int i + 1) mod k = 0);
            v2 = (if applies then v1\<lparr>n_acc_steps := n_acc_steps v1 + 1, grads := []\<rparr> else v1);
            evs = Backward (epoch_step v, i) #
              (if applies
               then OptimizerStep (grads v1) # ZeroGrad # (if use_wandb then [WandbLog] else [])
               else []);
            v3 = v2\<lparr>n_batches := n_batches v2 + 1, global_step := global_step v2 + 1,
                    epoch_loss := flt_add (epoch_loss v2) loss\<rparr>
        in case batches_loop k use_wandb (i + 1) bs v3 of
             (evs', err, v') \<Rightarrow> (evs @ evs', err, v'))"

text \<open>
  One iteration of the \<^verbatim>\<open>while\<close> loop (lines 336 to 404) on the micro-batches
  \<open>bs\<close> that the epoch's loader yields; \<open>dir\<close> is \<^verbatim>\<open>model_dir\<close>.
\<close>

definition epoch_body ::
  "config \<Rightarrow> bool \<Rightarrow> string \<Rightarrow> batch list \<Rightarrow> vars \<Rightarrow> event list \<times> error option \<times> vars" where
  "epoch_body c use_wandb dir bs v =
     (let v0 = v\<lparr>epoch_loss := Fin 0, n_batches := 0, grads := []\<rparr> in
      case batches_loop (accumulation_steps c) use_wandb 0 bs v0 of
        (evs, Some e, v1) \<Rightarrow> (EpochBegin # ZeroGrad # evs, Some e, v1)
      | (evs, None, v1) \<Rightarrow>
          if n_batches v1 = 0 then (EpochBegin # ZeroGrad # evs, Some ZeroDivisionError, v1)
          else
            let avg_loss = flt_div_nat (epoch_loss v1) (n_batches v1);
                v2 = v1\<lparr>epoch_step := epoch_step v1 + 1\<rparr>
            in if flt_lt avg_loss (best_avg_loss v2)
               then (EpochBegin # ZeroGrad # evs @ [SaveCheckpoint dir], None,
                     v2\<lparr>best_avg_loss := avg_loss\<rparr>)
               else (EpochBegin # ZeroGrad # evs, None, v2))"

text \<open>
  How the \<^verbatim>\<open>while\<close> loop stands after the epochs of the feed: its condition became
  false (\<open>Finished\<close>), an exception left it (\<open>Raised\<close>), or the feed is used up and
  the condition still holds (\<open>Running\<close>: the loop goes on beyond what was observed).
\<close>

datatype loop_result = Finished vars | Raised error vars | Running vars

fun vars_of :: "loop_result \<Rightarrow> vars" where
  "vars_of (Finished v) = v"
| "vars_of (Raised e v) = v"
| "vars_of (Running v) = v"

fun train_loop ::
  "config \<Rightarrow> bool \<Rightarrow> string \<Rightarrow> batch list list \<Rightarrow> vars \<Rightarrow> event list \<times> loop_result" where
  "train_loop c use_wandb dir [] v =
     (if epoch_step v < num_epochs c \<or> num_epochs c = -1 then ([], Running v)
      else ([], Finished v))"
| "train_loop c use_wandb dir (bs # rest) v =
     (if epoch_step v < num_epochs c \<or> num_epochs c = -1 then
        (case epoch_body c use_wandb dir bs v of
           (evs, Some e, v1) \<Rightarrow> (evs, Raised e v1)
         | (evs, None, v1) \<Rightarrow>
             (case train_loop c use_wandb dir rest v1 of (evs', r) \<Rightarrow> (evs @ evs', r)))
      else ([], Finished v))"

subsection \<open>The publish decision and the whole run\<close>

text \<open>
  Lines 406 to 436, entered when the loop has finished with \<open>best\<close> as
  \<^verbatim>\<open>best_avg_loss\<close>. Each branch logs one message, which names the branch in the trace.
\<close>

definition publish :: "config \<Rightarrow> env \<Rightarrow> pyfloat \<Rightarrow> event list \<times> error option" where
  "publish c e best =
     (if \<not> offline c then
        if flt_lt best (avg_loss_upload_threshold c) then
          if push_succeeds e
          then ([LogFinished, LogUploading, LoadLocalModel (run_dir e), Push], None)
          else ([LogFinished, LogUploading, LoadLocalModel (run_dir e), Push], Some PushFailed)
        else ([LogFinished, LogSkippedThreshold], None)
      else ([LogFinished, LogSkippedOffline], None))"

text \<open>How a run ends: it returns, an exception leaves \<^verbatim>\<open>main\<close>, or it is still training.\<close>

datatype status = Returned | Failed error | Training

text \<open>
  The \<^verbatim>\<open>try\<close> block with its \<^verbatim>\<open>finally\<close> (lines 334 to 441), from the
  initial locals. \<open>wandb_run\<close> tells whether a telemetry run was opened; when the block
  is entered that is the case exactly when \<^verbatim>\<open>use_wandb\<close> is set, so the one flag
  stands for both. An exception that leaves the loop skips the rest of the block and
  reaches \<^verbatim>\<open>finally\<close>; there is no \<^verbatim>\<open>except\<close> clause.
\<close>

definition try_block :: "config \<Rightarrow> env \<Rightarrow> bool \<Rightarrow> event list \<times> status" where
  "try_block c e wandb_run =
     (let fin = (if wandb_run then [WandbFinish] else []) in
      case train_loop c wandb_run (run_dir e) (feed e) init_vars of
        (evs, Running v) \<Rightarrow> (evs, Training)
      | (evs, Raised err v) \<Rightarrow> (evs @ fin, Failed err)
      | (evs, Finished v) \<Rightarrow>
          (case publish c e (best_avg_loss v) of
             (pevs, None) \<Rightarrow> (evs @ pevs @ fin, Returned)
           | (pevs, Some err) \<Rightarrow> (evs @ pevs @ fin, Failed err)))"

text \<open>Lines 242 to 260: the chain objects, the online checks and the run directory.\<close>

definition connect :: "config \<Rightarrow> env \<Rightarrow> event list \<times> error option" where
  "connect c e =
     (if \<not> offline c then
        if \<not> registered e
        then ([CreateWallet, ConnectSubtensor, SyncMetagraph, AssertRegistered], Some NotRegistered)
        else if \<not> hf_access_token e
        then ([CreateWallet, ConnectSubtensor, SyncMetagraph, AssertRegistered, AssertAccessToken],
              Some NoAccessToken)
        else ([CreateWallet, ConnectSubtensor, SyncMetagraph, AssertRegistered, AssertAccessToken,
               MakeDirs (run_dir e)], None)
      else ([CreateWallet, ConnectSubtensor, SyncMetagraph, MakeDirs (run_dir e)], None))"

definition main :: "config \<Rightarrow> env \<Rightarrow> event list \<times> status" where
  "main c e =
     (case connect c e of
        (evs0, Some err) \<Rightarrow> (evs0, Failed err)
      | (evs0, None) \<Rightarrow>
          (let use_wandb = (\<not> offline c \<and> \<not> (wandb_project c = None \<or> wandb_entity c = None)) in
           (case constraints e (competition_id c) of
              None \<Rightarrow> (evs0, Failed RuntimeError)
            | Some model_constraints \<Rightarrow>
                (let evs1 = evs0 @ [LoadTokenizer, LoadModel (load_starting_model c),
                                    SaveCheckpoint (run_dir e)] in
                 if use_wandb then
                   if \<not> truthy (wandb_api_key e) then (evs1, Failed ValueError)
                   else
                     (case try_block c e True of
                        (evs2, st) \<Rightarrow> (evs1 @ [WandbLogin, WandbInit, WandbSave] @ evs2, st))
                 else
                   (case try_block c e False of (evs2, st) \<Rightarrow> (evs1 @ evs2, st))))))"

text \<open>
  Events that certainly are network I/O: the connection to the chain endpoint
  (\<^verbatim>\<open>bt.subtensor\<close>), the download of the metagraph, the fetch of a model through
  the registry, the telemetry login and run creation, and the push. The registration
  check reads the metagraph already fetched, so it is not counted.
\<close>

fun network_io :: "event \<Rightarrow> bool" where
  "network_io ConnectSubtensor = True"
| "network_io SyncMetagraph = True"
| "network_io (LoadModel BestModel) = True"
| "network_io (LoadModel (RemoteModel uid)) = True"
| "network_io WandbLogin = True"
| "network_io WandbInit = True"
| "network_io Push = True"
| "network_io _ = False"

subsection \<open>Observations on feeds, traces and floats\<close>

text \<open>
  The losses of the micro-batches that the loop processes: those the loader yields before
  it is exhausted or an interrupt arrives.
\<close>

fun losses :: "batch list \<Rightarrow> pyfloat list" where
  "losses [] = []"
| "losses (Interrupt # bs) = []"
| "losses (Batch l # bs) = l # losses bs"

text \<open>Whether an interrupt arrives before the loader is exhausted.\<close>

fun interrupted :: "batch list \<Rightarrow> bool" where
  "interrupted [] = False"
| "interrupted (Interrupt # bs) = True"
| "interrupted (Batch l # bs) = interrupted bs"

text \<open>The optimizer steps of a trace, each with the micro-batches whose gradients it applies.\<close>

fun opt_steps :: "event list \<Rightarrow> batch_id list list" where
  "opt_steps [] = []"
| "opt_steps (OptimizerStep gs # evs) = gs # opt_steps evs"
| "opt_steps (ev # evs) = opt_steps evs"

text \<open>The \<open>K\<close> consecutive micro-batches of epoch \<open>e\<close> that end at index \<open>j\<close>.\<close>

definition window :: "int \<Rightarrow> nat \<Rightarrow> nat \<Rightarrow> batch_id list" where
  "window e K j = map (Pair e) [Suc j - K ..< Suc j]"

text \<open>
  The average loss of line 390 on the losses of an epoch: their running sum from
  \<^verbatim>\<open>0.0\<close>, divided by their number.
\<close>

definition avg_loss_of :: "pyfloat list \<Rightarrow> pyfloat" where
  "avg_loss_of ls = flt_div_nat (foldl flt_add (Fin 0) ls) (length ls)"

text \<open>The locals when the \<^verbatim>\<open>for\<close> loop of an epoch is entered (lines 337, 357, 358).\<close>

definition epoch_start :: "vars \<Rightarrow> vars" where
  "epoch_start v = v\<lparr>epoch_loss := Fin 0, n_batches := 0, grads := []\<rparr>"

text \<open>One float is no larger than another: equal, or smaller by \<^verbatim>\<open><\<close>.\<close>

definition flt_le :: "pyfloat \<Rightarrow> pyfloat \<Rightarrow> bool" where
  "flt_le a b = (a = b \<or> flt_lt a b)"

text \<open>The events that the \<^verbatim>\<open>for\<close> loop emits.\<close>

fun loop_event :: "event \<Rightarrow> bool" where
  "loop_event (Backward b) = True"
| "loop_event (OptimizerStep gs) = True"
| "loop_event ZeroGrad = True"
| "loop_event WandbLog = True"
| "loop_event _ = False"

text \<open>The events that the \<^verbatim>\<open>while\<close> loop emits when it saves to \<open>dir\<close>.\<close>

definition train_event :: "string \<Rightarrow> event \<Rightarrow> bool" where
  "train_event dir ev = (loop_event ev \<or> ev = EpochBegin \<or> ev = SaveCheckpoint dir)"

subsection \<open>The source priority as the specification words it\<close>

text \<open>
  The specification's reading of the selection (its section 4.2): the sources whose
  selector is set, in the fixed priority order best-on-network, specific-participant,
  local-directory, local-file, with from-scratch last; the first of them is taken.
\<close>

definition spec_selected_sources :: "config \<Rightarrow> source list" where
  "spec_selected_sources c =
     (if load_best c then [BestModel] else [])
     @ (case load_uid c of Some uid \<Rightarrow> [RemoteModel uid] | None \<Rightarrow> [])
     @ (if truthy (load_model_dir c) then [LocalModel (the (load_model_dir c))] else [])
     @ (if truthy (load_model c) then [Gpt2Model (the (load_model c))] else [])
     @ [FromScratch]"

subsection \<open>A concrete run\<close>

text \<open>
  An online run with telemetry, an upload threshold of 2, two epochs and gradient
  accumulation over two micro-batches; the best-on-network and the local-file selectors
  are both set. Only competition 1 has constraints.
\<close>

definition demo_config :: config where
  "demo_config =
     \<lparr>offline = False, wandb_project = Some ''project'', wandb_entity = Some ''entity'',
      avg_loss_upload_threshold = Fin 2, load_best = True, load_uid = None,
      load_model_dir = None, load_model = Some ''model.safetensors'', num_epochs = 2,
      accumulation_steps = 2, competition_id = 1\<rparr>"

definition demo_env :: env where
  "demo_env =
     \<lparr>constraints = (\<lambda>i. if i = 1 then Some [] else None), registered = True,
      hf_access_token = True, wandb_api_key = Some ''key'', run_dir = ''run'',
      push_succeeds = True,
      feed = [[Batch (Fin 3), Batch (Fin 2), Batch (Fin 1)], [Batch (Fin 1), Batch (Fin 1)]]\<rparr>"

section \<open>Auxiliary lemmas\<close>

lemma mod_bridge: "k \<noteq> 0 \<Longrightarrow> ((int i + 1) mod k = 0) = (Suc i mod nat \<bar>k\<bar> = 0)"
proof -
  have "((int i + 1) mod k = 0) = (k dvd int (Suc i))"
    by (simp add: mod_eq_0_iff_dvd add.commute)
  also have "\<dots> = (nat \<bar>k\<bar> dvd Suc i)"
    by (simp only: nat_abs_dvd_iff)
  finally show ?thesis
    by (simp add: mod_eq_0_iff_dvd)
qed

lemma count_applies: "length [j \<leftarrow> [0 ..< m]. Suc j mod K = 0] = m div K"
  by (induction m) (auto simp: div_Suc)

lemma opt_steps_append: "opt_steps (xs @ ys) = opt_steps xs @ opt_steps ys"
  by (induction xs rule: opt_steps.induct) simp_all

lemma window_full:
  assumes "0 < K" and "Suc i mod K = 0"
  shows "[i - i mod K ..< i] @ [i] = [Suc i - K ..< Suc i]"
proof -
  from assms have "Suc (i mod K) = K"
    by (simp add: mod_Suc split: if_splits)
  then have "i - i mod K = Suc i - K"
    by arith
  then show ?thesis
    by simp
qed

lemma window_grow:
  assumes "Suc i mod K \<noteq> 0"
  shows "[i - i mod K ..< i] @ [i] = [Suc i - Suc i mod K ..< Suc i]"
proof -
  from assms have "Suc i mod K = Suc (i mod K)"
    by (simp add: mod_Suc split: if_splits)
  then have "Suc i - Suc i mod K = i - i mod K"
    by simp
  moreover have "i - i mod K \<le> i"
    by simp
  ultimately show ?thesis
    by (simp only: upt_Suc_append)
qed

lemma batches_loop_inv:
  assumes "k \<noteq> 0"
    and "grads v = map (Pair (epoch_step v)) [i - i mod nat \<bar>k\<bar> ..< i]"
    and "batches_loop k w i bs v = (evs, err, v')"
  shows "opt_steps evs =
           map (window (epoch_step v) (nat \<bar>k\<bar>))
             [j \<leftarrow> [i ..< i + length (losses bs)]. Suc j mod nat \<bar>k\<bar> = 0]
       \<and> grads v' = map (Pair (epoch_step v))
             [i + length (losses bs) - (i + length (losses bs)) mod nat \<bar>k\<bar> ..< i + length (losses bs)]
       \<and> n_acc_steps v' = n_acc_steps v +
             length [j \<leftarrow> [i ..< i + length (losses bs)]. Suc j mod nat \<bar>k\<bar> = 0]"
  using assms
proof (induction bs arbitrary: i v evs err v')
  case Nil
  then show ?case by simp
next
  case (Cons b bs)
  show ?case
  proof (cases b)
    case Interrupt
    with Cons.prems show ?thesis by simp
  next
    case (Batch l)
    let ?K = "nat \<bar>k\<bar>"
    let ?e = "epoch_step v"
    have K: "0 < ?K" using Cons.prems(1) by simp
    show ?thesis
    proof (cases "Suc i mod ?K = 0")
      case True
      let ?v3 = "v\<lparr>n_acc_steps := n_acc_steps v + 1, grads := [], n_batches := n_batches v + 1,
                  global_step := global_step v + 1, epoch_loss := flt_add (epoch_loss v) l\<rparr>"
      obtain evs2 where r: "batches_loop k w (Suc i) bs ?v3 = (evs2, err, v')"
        and evs: "evs = Backward (?e, i) # OptimizerStep (grads v @ [(?e, i)]) # ZeroGrad #
                    (if w then [WandbLog] else []) @ evs2"
        using Cons.prems(3) Cons.prems(1) Batch True
        by (auto simp: Let_def mod_bridge split: prod.splits)
      have g: "grads ?v3 = map (Pair (epoch_step ?v3)) [Suc i - Suc i mod ?K ..< Suc i]"
        using True by simp
      note ih = Cons.IH [OF Cons.prems(1) g r]
      have w: "grads v @ [(?e, i)] = window ?e ?K i"
      proof -
        have "grads v @ [(?e, i)] = map (Pair ?e) ([i - i mod ?K ..< i] @ [i])"
          using Cons.prems(2) by simp
        also have "\<dots> = map (Pair ?e) [Suc i - ?K ..< Suc i]"
          by (simp only: window_full [OF K True])
        finally show ?thesis
          by (simp only: window_def)
      qed
      show ?thesis
        using ih True w Batch evs
        by (simp add: upt_conv_Cons opt_steps_append del: upt_Suc)
    next
      case False
      let ?v3 = "v\<lparr>grads := grads v @ [(?e, i)], n_batches := n_batches v + 1,
                  global_step := global_step v + 1, epoch_loss := flt_add (epoch_loss v) l\<rparr>"
      obtain evs2 where r: "batches_loop k w (Suc i) bs ?v3 = (evs2, err, v')"
        and evs: "evs = Backward (?e, i) # evs2"
        using Cons.prems(3) Cons.prems(1) Batch False
        by (auto simp: Let_def mod_bridge split: prod.splits)
      have "grads v @ [(?e, i)] = map (Pair ?e) ([i - i mod ?K ..< i] @ [i])"
        using Cons.prems(2) by simp
      also have "\<dots> = map (Pair ?e) [Suc i - Suc i mod ?K ..< Suc i]"
        by (simp only: window_grow [OF False])
      finally have g: "grads ?v3 = map (Pair (epoch_step ?v3)) [Suc i - Suc i mod ?K ..< Suc i]"
        by simp
      note ih = Cons.IH [OF Cons.prems(1) g r]
      show ?thesis
        using ih False Batch evs
        by (simp add: upt_conv_Cons del: upt_Suc)
    qed
  qed
qed

lemma batches_loop_vars:
  assumes "k \<noteq> 0" and "batches_loop k w i bs v = (evs, err, v')"
  shows "epoch_loss v' = foldl flt_add (epoch_loss v) (losses bs)
       \<and> n_batches v' = n_batches v + length (losses bs)
       \<and> global_step v' = global_step v + length (losses bs)
       \<and> err = (if interrupted bs then Some KeyboardInterrupt else None)"
  using assms
proof (induction bs arbitrary: i v evs)
  case Nil
  then show ?case by auto
next
  case (Cons b bs)
  show ?case
  proof (cases b)
    case Interrupt
    with Cons.prems show ?thesis by auto
  next
    case (Batch l)
    with Cons.prems Cons.IH show ?thesis
      by (fastforce simp: Let_def split: prod.splits if_splits)
  qed
qed

lemma batches_loop_zero:
  "batches_loop 0 w i bs v = (evs, err, v') \<Longrightarrow>
     opt_steps evs = [] \<and> (err = None \<longrightarrow> bs = [])"
  by (cases bs rule: losses.cases) auto

lemma batches_loop_frame:
  assumes "batches_loop k w i bs v = (evs, err, v')"
  shows "epoch_step v' = epoch_step v \<and> best_avg_loss v' = best_avg_loss v
       \<and> list_all loop_event evs"
  using assms
proof (induction bs arbitrary: i v evs)
  case Nil
  then show ?case by auto
next
  case (Cons b bs)
  show ?case
  proof (cases b)
    case Interrupt
    with Cons.prems show ?thesis by auto
  next
    case (Batch l)
    with Cons.prems Cons.IH show ?thesis
      by (fastforce simp: Let_def split: prod.splits if_splits)
  qed
qed

lemma epoch_body_cases:
  assumes "epoch_body c w dir bs v = (evs, err, v')"
  obtains
    (raised) bevs e where
      "batches_loop (accumulation_steps c) w 0 bs (epoch_start v) = (bevs, Some e, v')"
      "evs = EpochBegin # ZeroGrad # bevs" "err = Some e"
  | (empty) bevs where
      "batches_loop (accumulation_steps c) w 0 bs (epoch_start v) = (bevs, None, v')"
      "n_batches v' = 0" "evs = EpochBegin # ZeroGrad # bevs" "err = Some ZeroDivisionError"
  | (improved) bevs v1 where
      "batches_loop (accumulation_steps c) w 0 bs (epoch_start v) = (bevs, None, v1)"
      "n_batches v1 \<noteq> 0"
      "flt_lt (flt_div_nat (epoch_loss v1) (n_batches v1)) (best_avg_loss v1)"
      "evs = EpochBegin # ZeroGrad # bevs @ [SaveCheckpoint dir]" "err = None"
      "v' = v1\<lparr>epoch_step := epoch_step v1 + 1,
                best_avg_loss := flt_div_nat (epoch_loss v1) (n_batches v1)\<rparr>"
  | (kept) bevs v1 where
      "batches_loop (accumulation_steps c) w 0 bs (epoch_start v) = (bevs, None, v1)"
      "n_batches v1 \<noteq> 0"
      "\<not> flt_lt (flt_div_nat (epoch_loss v1) (n_batches v1)) (best_avg_loss v1)"
      "evs = EpochBegin # ZeroGrad # bevs" "err = None"
      "v' = v1\<lparr>epoch_step := epoch_step v1 + 1\<rparr>"
  using assms unfolding epoch_body_def epoch_start_def
  by (auto simp: Let_def split: prod.splits option.splits if_splits)

lemma epoch_body_ok_iff:
  assumes "epoch_body c w dir bs v = (evs, err, v')"
  shows "(err = None) = (accumulation_steps c \<noteq> 0 \<and> \<not> interrupted bs \<and> losses bs \<noteq> [])"
proof (cases "accumulation_steps c = 0")
  case True
  from assms show ?thesis
  proof (cases rule: epoch_body_cases)
    case (raised bevs e)
    then show ?thesis using True by simp
  next
    case (empty bevs)
    then show ?thesis using True by simp
  next
    case (improved bevs v1)
    then show ?thesis using True batches_loop_zero [of w 0 bs "epoch_start v" bevs None v1]
      by (auto simp: epoch_start_def)
  next
    case (kept bevs v1)
    then show ?thesis using True batches_loop_zero [of w 0 bs "epoch_start v" bevs None v1]
      by (auto simp: epoch_start_def)
  qed
next
  case False
  from assms show ?thesis
  proof (cases rule: epoch_body_cases)
    case (raised bevs e)
    then show ?thesis using batches_loop_vars [OF False raised(1)]
      by (simp split: if_splits)
  next
    case (empty bevs)
    then show ?thesis using batches_loop_vars [OF False empty(1)]
      by (simp add: epoch_start_def split: if_splits)
  next
    case (improved bevs v1)
    then show ?thesis using False batches_loop_vars [OF False improved(1)]
      by (auto simp: epoch_start_def split: if_splits)
  next
    case (kept bevs v1)
    then show ?thesis using False batches_loop_vars [OF False kept(1)]
      by (auto simp: epoch_start_def split: if_splits)
  qed
qed

lemma epoch_body_best:
  assumes "epoch_body c w dir bs v = (evs, err, v')"
  shows "best_avg_loss v' =
           (if err = None \<and> flt_lt (avg_loss_of (losses bs)) (best_avg_loss v)
            then avg_loss_of (losses bs) else best_avg_loss v)"
    and "epoch_step v' = (if err = None then epoch_step v + 1 else epoch_step v)"
    and "(SaveCheckpoint d \<in> set evs) =
           (err = None \<and> flt_lt (avg_loss_of (losses bs)) (best_avg_loss v) \<and> d = dir)"
proof -
  have k: "accumulation_steps c \<noteq> 0" if "err = None"
    using epoch_body_ok_iff [OF assms] that by simp
  have nosave: "SaveCheckpoint d \<notin> set bevs" if "list_all loop_event bevs" for bevs
    using that by (auto simp: list_all_iff)
  from assms show "best_avg_loss v' =
           (if err = None \<and> flt_lt (avg_loss_of (losses bs)) (best_avg_loss v)
            then avg_loss_of (losses bs) else best_avg_loss v)"
  proof (cases rule: epoch_body_cases)
    case (raised bevs e)
    then show ?thesis using batches_loop_frame [OF raised(1)]
      by (simp add: epoch_start_def)
  next
    case (empty bevs)
    then show ?thesis using batches_loop_frame [OF empty(1)]
      by (simp add: epoch_start_def)
  next
    case (improved bevs v1)
    then show ?thesis
      using batches_loop_frame [OF improved(1)] batches_loop_vars [OF k improved(1)]
      by (simp add: epoch_start_def avg_loss_of_def)
  next
    case (kept bevs v1)
    then show ?thesis
      using batches_loop_frame [OF kept(1)] batches_loop_vars [OF k kept(1)]
      by (simp add: epoch_start_def avg_loss_of_def)
  qed
  from assms show "epoch_step v' = (if err = None then epoch_step v + 1 else epoch_step v)"
  proof (cases rule: epoch_body_cases)
    case (raised bevs e)
    then show ?thesis using batches_loop_frame [OF raised(1)]
      by (simp add: epoch_start_def)
  next
    case (empty bevs)
    then show ?thesis using batches_loop_frame [OF empty(1)]
      by (simp add: epoch_start_def)
  next
    case (improved bevs v1)
    then show ?thesis using batches_loop_frame [OF improved(1)]
      by (simp add: epoch_start_def)
  next
    case (kept bevs v1)
    then show ?thesis using batches_loop_frame [OF kept(1)]
      by (simp add: epoch_start_def)
  qed
  from assms show "(SaveCheckpoint d \<in> set evs) =
           (err = None \<and> flt_lt (avg_loss_of (losses bs)) (best_avg_loss v) \<and> d = dir)"
  proof (cases rule: epoch_body_cases)
    case (raised bevs e)
    then show ?thesis using batches_loop_frame [OF raised(1)] nosave [of bevs]
      by simp
  next
    case (empty bevs)
    then show ?thesis using batches_loop_frame [OF empty(1)] nosave [of bevs]
      by simp
  next
    case (improved bevs v1)
    then show ?thesis
      using batches_loop_frame [OF improved(1)] batches_loop_vars [OF k improved(1)]
        nosave [of bevs]
      by (auto simp: epoch_start_def avg_loss_of_def)
  next
    case (kept bevs v1)
    then show ?thesis
      using batches_loop_frame [OF kept(1)] batches_loop_vars [OF k kept(1)]
        nosave [of bevs]
      by (auto simp: epoch_start_def avg_loss_of_def)
  qed
qed

lemma flt_lt_trans: "flt_lt a b \<Longrightarrow> flt_lt b c \<Longrightarrow> flt_lt a c"
  by (cases a; cases b; cases c) auto

lemma flt_le_refl: "flt_le a a"
  by (simp add: flt_le_def)

lemma flt_le_trans: "flt_le a b \<Longrightarrow> flt_le b c \<Longrightarrow> flt_le a c"
  unfolding flt_le_def using flt_lt_trans by blast

lemma train_loop_stopped:
  "\<not> (epoch_step v < num_epochs c \<or> num_epochs c = -1) \<Longrightarrow>
     train_loop c w dir es v = ([], Finished v)"
  by (cases es) simp_all

lemma train_loop_append:
  "train_loop c w dir (es1 @ es2) v =
     (case train_loop c w dir es1 v of
        (evs, Running v1) \<Rightarrow>
          (case train_loop c w dir es2 v1 of (evs', r) \<Rightarrow> (evs @ evs', r))
      | (evs, Finished v1) \<Rightarrow> (evs, Finished v1)
      | (evs, Raised e v1) \<Rightarrow> (evs, Raised e v1))"
proof (induction es1 arbitrary: v)
  case Nil
  then show ?case
    by (simp add: train_loop_stopped split: prod.splits)
next
  case (Cons bs es1)
  then show ?case
    by (simp split: prod.splits option.splits loop_result.splits)
qed

lemma train_loop_best:
  "flt_le (best_avg_loss (vars_of (snd (train_loop c w dir es v)))) (best_avg_loss v)"
proof (induction es arbitrary: v)
  case Nil
  then show ?case by (simp add: flt_le_refl)
next
  case (Cons bs es)
  show ?case
  proof (cases "epoch_step v < num_epochs c \<or> num_epochs c = -1")
    case False
    then show ?thesis by (simp add: flt_le_refl)
  next
    case True
    obtain evs err v1 where eb: "epoch_body c w dir bs v = (evs, err, v1)"
      by (cases "epoch_body c w dir bs v") auto
    have step: "flt_le (best_avg_loss v1) (best_avg_loss v)"
      using epoch_body_best(1) [OF eb] by (simp add: flt_le_def)
    show ?thesis
    proof (cases err)
      case (Some e)
      with True eb step show ?thesis by simp
    next
      case None
      with True eb flt_le_trans [OF Cons.IH [of v1] step] show ?thesis
        by (auto split: prod.splits)
    qed
  qed
qed

lemma epoch_body_begins:
  assumes "epoch_body c w dir bs v = (evs, err, v')"
  shows "take 2 evs = [EpochBegin, ZeroGrad] \<and> count_list evs EpochBegin = 1"
proof -
  have none: "count_list bevs EpochBegin = 0" if "list_all loop_event bevs" for bevs
    using that by (auto simp: list_all_iff count_list_0_iff)
  from assms show ?thesis
  proof (cases rule: epoch_body_cases)
    case (raised bevs e)
    then show ?thesis using none [of bevs] batches_loop_frame [OF raised(1)] by simp
  next
    case (empty bevs)
    then show ?thesis using none [of bevs] batches_loop_frame [OF empty(1)] by simp
  next
    case (improved bevs v1)
    then show ?thesis using none [of bevs] batches_loop_frame [OF improved(1)] by simp
  next
    case (kept bevs v1)
    then show ?thesis using none [of bevs] batches_loop_frame [OF kept(1)] by simp
  qed
qed

lemma train_loop_budget:
  assumes "accumulation_steps c \<noteq> 0"
    and "\<forall>bs \<in> set es. \<not> interrupted bs \<and> losses bs \<noteq> []"
    and "0 \<le> num_epochs c" and "epoch_step v \<le> num_epochs c"
    and "nat (num_epochs c - epoch_step v) \<le> length es"
  shows "\<exists>evs v'. train_loop c w dir es v = (evs, Finished v')
           \<and> epoch_step v' = num_epochs c
           \<and> count_list evs EpochBegin = nat (num_epochs c - epoch_step v)"
  using assms
proof (induction es arbitrary: v)
  case Nil
  then show ?case by auto
next
  case (Cons bs es)
  show ?case
  proof (cases "epoch_step v < num_epochs c")
    case False
    with Cons.prems show ?thesis by auto
  next
    case True
    obtain evs err v1 where eb: "epoch_body c w dir bs v = (evs, err, v1)"
      by (cases "epoch_body c w dir bs v") auto
    have ok: "err = None"
      using epoch_body_ok_iff [OF eb] Cons.prems by simp
    have st: "epoch_step v1 = epoch_step v + 1"
      using epoch_body_best(2) [OF eb] ok by simp
    have "nat (num_epochs c - epoch_step v1) \<le> length es"
      using Cons.prems(5) True st by simp
    with Cons.IH [of v1] Cons.prems st True
    obtain evs' v' where r: "train_loop c w dir es v1 = (evs', Finished v')"
      and fin: "epoch_step v' = num_epochs c"
      and cnt: "count_list evs' EpochBegin = nat (num_epochs c - epoch_step v1)"
      by auto
    have "nat (num_epochs c - epoch_step v) = Suc (nat (num_epochs c - epoch_step v1))"
      using True st by simp
    with True eb ok r fin cnt epoch_body_begins [OF eb] show ?thesis
      by simp
  qed
qed

lemma train_loop_unbounded:
  assumes "num_epochs c = -1"
  shows "train_loop c w dir es v \<noteq> (evs, Finished v')"
  using assms
proof (induction es arbitrary: v evs)
  case Nil
  then show ?case by simp
next
  case (Cons bs es)
  then show ?case
    by (auto split: prod.splits option.splits)
qed

lemma train_loop_unbounded_runs:
  assumes "num_epochs c = -1" and "accumulation_steps c \<noteq> 0"
    and "\<forall>bs \<in> set es. \<not> interrupted bs \<and> losses bs \<noteq> []"
  shows "\<exists>evs v'. train_loop c w dir es v = (evs, Running v')
           \<and> epoch_step v' = epoch_step v + int (length es)
           \<and> count_list evs EpochBegin = length es"
  using assms
proof (induction es arbitrary: v)
  case Nil
  then show ?case by simp
next
  case (Cons bs es)
  obtain evs err v1 where eb: "epoch_body c w dir bs v = (evs, err, v1)"
    by (cases "epoch_body c w dir bs v") auto
  have ok: "err = None"
    using epoch_body_ok_iff [OF eb] Cons.prems by simp
  have st: "epoch_step v1 = epoch_step v + 1"
    using epoch_body_best(2) [OF eb] ok by simp
  from Cons.IH [of v1] Cons.prems
  obtain evs' v' where r: "train_loop c w dir es v1 = (evs', Running v')"
    and fin: "epoch_step v' = epoch_step v1 + int (length es)"
    and cnt: "count_list evs' EpochBegin = length es"
    by auto
  with Cons.prems(1) eb ok st epoch_body_begins [OF eb] show ?case
    by simp
qed

lemma epoch_body_opt_steps:
  assumes "epoch_body c w dir bs v = (evs, err, v')"
  shows "opt_steps evs =
           (if accumulation_steps c = 0 then []
            else map (window (epoch_step v) (nat \<bar>accumulation_steps c\<bar>))
                   [j \<leftarrow> [0 ..< length (losses bs)].
                      Suc j mod nat \<bar>accumulation_steps c\<bar> = 0])"
proof -
  have g: "grads (epoch_start v) =
      map (Pair (epoch_step (epoch_start v))) [0 - 0 mod nat \<bar>accumulation_steps c\<bar> ..< 0]"
    by (simp add: epoch_start_def)
  have e: "epoch_step (epoch_start v) = epoch_step v"
    by (simp add: epoch_start_def)
  have inner: "opt_steps bevs =
           (if accumulation_steps c = 0 then []
            else map (window (epoch_step v) (nat \<bar>accumulation_steps c\<bar>))
                   [j \<leftarrow> [0 ..< length (losses bs)].
                      Suc j mod nat \<bar>accumulation_steps c\<bar> = 0])"
    if "batches_loop (accumulation_steps c) w 0 bs (epoch_start v) = (bevs, berr, v1)"
    for bevs berr v1
  proof (cases "accumulation_steps c = 0")
    case True
    with that batches_loop_zero [of w 0 bs "epoch_start v" bevs berr v1] show ?thesis
      by simp
  next
    case False
    with batches_loop_inv [OF False g that] e show ?thesis
      by simp
  qed
  from assms show ?thesis
  proof (cases rule: epoch_body_cases)
    case (raised bevs e)
    then show ?thesis using inner [OF raised(1)] by simp
  next
    case (empty bevs)
    then show ?thesis using inner [OF empty(1)] by simp
  next
    case (improved bevs v1)
    then show ?thesis using inner [OF improved(1)] by (simp add: opt_steps_append)
  next
    case (kept bevs v1)
    then show ?thesis using inner [OF kept(1)] by simp
  qed
qed

lemma epoch_body_counters:
  assumes "accumulation_steps c \<noteq> 0" and "epoch_body c w dir bs v = (evs, err, v')"
  shows "n_acc_steps v' = n_acc_steps v + length (losses bs) div nat \<bar>accumulation_steps c\<bar>"
    and "grads v' = map (Pair (epoch_step v))
           [length (losses bs) div nat \<bar>accumulation_steps c\<bar> * nat \<bar>accumulation_steps c\<bar>
              ..< length (losses bs)]"
    and "global_step v' = global_step v + length (losses bs)"
    and "n_batches v' = length (losses bs)"
proof -
  let ?K = "nat \<bar>accumulation_steps c\<bar>"
  let ?m = "length (losses bs)"
  have g: "grads (epoch_start v) = map (Pair (epoch_step (epoch_start v))) [0 - 0 mod ?K ..< 0]"
    by (simp add: epoch_start_def)
  have inner: "n_acc_steps v1 = n_acc_steps v + ?m div ?K
      \<and> grads v1 = map (Pair (epoch_step v)) [?m div ?K * ?K ..< ?m]
      \<and> global_step v1 = global_step v + ?m
      \<and> n_batches v1 = ?m"
    if "batches_loop (accumulation_steps c) w 0 bs (epoch_start v) = (bevs, berr, v1)"
    for bevs berr v1
    using batches_loop_inv [OF assms(1) g that] batches_loop_vars [OF assms(1) that]
    by (simp add: epoch_start_def count_applies minus_mod_eq_div_mult)
  from assms(2) have "n_acc_steps v' = n_acc_steps v + ?m div ?K
      \<and> grads v' = map (Pair (epoch_step v)) [?m div ?K * ?K ..< ?m]
      \<and> global_step v' = global_step v + ?m
      \<and> n_batches v' = ?m"
  proof (cases rule: epoch_body_cases)
    case (raised bevs e)
    then show ?thesis using inner [OF raised(1)] by simp
  next
    case (empty bevs)
    then show ?thesis using inner [OF empty(1)] by simp
  next
    case (improved bevs v1)
    then show ?thesis using inner [OF improved(1)] by simp
  next
    case (kept bevs v1)
    then show ?thesis using inner [OF kept(1)] by simp
  qed
  then show "n_acc_steps v' = n_acc_steps v + ?m div ?K"
    and "grads v' = map (Pair (epoch_step v)) [?m div ?K * ?K ..< ?m]"
    and "global_step v' = global_step v + ?m"
    and "n_batches v' = ?m"
    by simp_all
qed

lemma multiple_below:
  assumes "(a::nat) mod K = 0" and "a \<le> m"
  shows "a \<le> m div K * K"
proof -
  have "a = a div K * K"
    using assms(1) by (simp add: mod_eq_0_iff_dvd)
  also have "\<dots> \<le> m div K * K"
    using assms(2) by (simp add: div_le_mono)
  finally show ?thesis .
qed

lemma window_members:
  assumes "(e', i) \<in> set (window e K j)" and "Suc j mod K = 0" and "j < m"
  shows "e' = e \<and> i < m div K * K"
proof -
  from assms(1) have "e' = e" and "i < Suc j"
    by (auto simp: window_def)
  moreover have "Suc j \<le> m div K * K"
    using multiple_below [OF assms(2)] assms(3) by simp
  ultimately show ?thesis by simp
qed

lemma epoch_body_contributors:
  assumes "epoch_body c w dir bs v = (evs, err, v')"
    and "gs \<in> set (opt_steps evs)" and "(e, i) \<in> set gs"
  shows "e = epoch_step v
       \<and> i < length (losses bs) div nat \<bar>accumulation_steps c\<bar> * nat \<bar>accumulation_steps c\<bar>"
proof (cases "accumulation_steps c = 0")
  case True
  with epoch_body_opt_steps [OF assms(1)] assms(2) show ?thesis by simp
next
  case False
  with epoch_body_opt_steps [OF assms(1)] assms(2)
  obtain j where j: "j < length (losses bs)" "Suc j mod nat \<bar>accumulation_steps c\<bar> = 0"
    and gs: "gs = window (epoch_step v) (nat \<bar>accumulation_steps c\<bar>) j"
    by auto
  from assms(3) gs have "(e, i) \<in> set (window (epoch_step v) (nat \<bar>accumulation_steps c\<bar>) j)"
    by simp
  from window_members [OF this j(2) j(1)] show ?thesis .
qed

lemma train_loop_contributors:
  assumes "train_loop c w dir es v = (evs, r)"
    and "gs \<in> set (opt_steps evs)" and "(e, i) \<in> set gs"
  shows "\<exists>n < length es. e = epoch_step v + int n
       \<and> i < length (losses (es ! n)) div nat \<bar>accumulation_steps c\<bar>
               * nat \<bar>accumulation_steps c\<bar>"
  using assms
proof (induction es arbitrary: v evs r)
  case Nil
  then show ?case by (simp split: if_splits)
next
  case (Cons bs es)
  show ?case
  proof (cases "epoch_step v < num_epochs c \<or> num_epochs c = -1")
    case False
    with Cons.prems show ?thesis by simp
  next
    case True
    obtain evs1 err v1 where eb: "epoch_body c w dir bs v = (evs1, err, v1)"
      by (cases "epoch_body c w dir bs v") auto
    obtain evs2 r2 where tl: "train_loop c w dir es v1 = (evs2, r2)"
      by (cases "train_loop c w dir es v1") auto
    have split: "gs \<in> set (opt_steps evs1) \<or> (err = None \<and> gs \<in> set (opt_steps evs2))"
      using Cons.prems(1,2) True eb tl
      by (cases err) (auto simp: opt_steps_append)
    then show ?thesis
    proof
      assume "gs \<in> set (opt_steps evs1)"
      from epoch_body_contributors [OF eb this Cons.prems(3)]
      have "e = epoch_step v + int 0
          \<and> i < length (losses ((bs # es) ! 0)) div nat \<bar>accumulation_steps c\<bar>
               * nat \<bar>accumulation_steps c\<bar>"
        by simp
      then show ?thesis by blast
    next
      assume a: "err = None \<and> gs \<in> set (opt_steps evs2)"
      then have st: "epoch_step v1 = epoch_step v + 1"
        using epoch_body_best(2) [OF eb] by simp
      from Cons.IH [OF tl _ Cons.prems(3)] a
      obtain n where "n < length es" and "e = epoch_step v1 + int n"
        and "i < length (losses (es ! n)) div nat \<bar>accumulation_steps c\<bar>
               * nat \<bar>accumulation_steps c\<bar>"
        by blast
      with st have "Suc n < length (bs # es) \<and> e = epoch_step v + int (Suc n)
          \<and> i < length (losses ((bs # es) ! Suc n)) div nat \<bar>accumulation_steps c\<bar>
               * nat \<bar>accumulation_steps c\<bar>"
        by simp
      then show ?thesis by blast
    qed
  qed
qed

lemma epoch_body_events:
  assumes "epoch_body c w dir bs v = (evs, err, v')"
  shows "list_all (train_event dir) evs"
proof -
  have lift: "list_all (train_event dir) bevs" if "list_all loop_event bevs" for bevs
    using that by (simp add: list_all_iff train_event_def)
  from assms show ?thesis
  proof (cases rule: epoch_body_cases)
    case (raised bevs e)
    then show ?thesis using lift [of bevs] batches_loop_frame [OF raised(1)]
      by (simp add: train_event_def)
  next
    case (empty bevs)
    then show ?thesis using lift [of bevs] batches_loop_frame [OF empty(1)]
      by (simp add: train_event_def)
  next
    case (improved bevs v1)
    then show ?thesis using lift [of bevs] batches_loop_frame [OF improved(1)]
      by (simp add: train_event_def)
  next
    case (kept bevs v1)
    then show ?thesis using lift [of bevs] batches_loop_frame [OF kept(1)]
      by (simp add: train_event_def)
  qed
qed

lemma train_loop_events:
  "train_loop c w dir es v = (evs, r) \<Longrightarrow> list_all (train_event dir) evs"
proof (induction es arbitrary: v evs r)
  case Nil
  then show ?case by (auto split: if_splits)
next
  case (Cons bs es)
  show ?case
  proof (cases "epoch_step v < num_epochs c \<or> num_epochs c = -1")
    case False
    with Cons.prems show ?thesis by simp
  next
    case True
    obtain evs1 err v1 where eb: "epoch_body c w dir bs v = (evs1, err, v1)"
      by (cases "epoch_body c w dir bs v") auto
    obtain evs2 r2 where tl: "train_loop c w dir es v1 = (evs2, r2)"
      by (cases "train_loop c w dir es v1") auto
    from Cons.prems True eb tl epoch_body_events [OF eb] Cons.IH [OF tl] show ?thesis
      by (cases err) auto
  qed
qed

lemma train_events_absent:
  assumes "list_all (train_event dir) evs"
  shows "Push \<notin> set evs" and "LogFinished \<notin> set evs" and "LoadLocalModel d \<notin> set evs"
    and "count_list evs WandbFinish = 0" and "count_list evs WandbInit = 0"
    and "SaveCheckpoint d \<in> set evs \<Longrightarrow> d = dir"
  using assms by (auto simp: list_all_iff train_event_def count_list_0_iff)

lemma try_block_props:
  assumes "try_block c e w = (evs, st)"
  shows "st \<noteq> Training \<Longrightarrow> count_list evs WandbFinish = (if w then 1 else 0)"
    and "count_list evs WandbInit = 0"
    and "st = Failed KeyboardInterrupt \<Longrightarrow>
           Push \<notin> set evs \<and> LogFinished \<notin> set evs \<and> LoadLocalModel d \<notin> set evs"
    and "SaveCheckpoint d \<in> set evs \<Longrightarrow> d = run_dir e"
proof -
  obtain tevs r where tl: "train_loop c w (run_dir e) (feed e) init_vars = (tevs, r)"
    by (cases "train_loop c w (run_dir e) (feed e) init_vars") auto
  note absent = train_events_absent [OF train_loop_events [OF tl]]
  show "st \<noteq> Training \<Longrightarrow> count_list evs WandbFinish = (if w then 1 else 0)"
    using assms tl absent(4)
    by (cases r) (auto simp: try_block_def publish_def split: if_splits)
  show "count_list evs WandbInit = 0"
    using assms tl absent(5)
    by (cases r) (auto simp: try_block_def publish_def split: if_splits)
  show "st = Failed KeyboardInterrupt \<Longrightarrow>
           Push \<notin> set evs \<and> LogFinished \<notin> set evs \<and> LoadLocalModel d \<notin> set evs"
    using assms tl absent(1,2) absent(3) [of d]
    by (cases r) (auto simp: try_block_def publish_def split: if_splits)
  show "SaveCheckpoint d \<in> set evs \<Longrightarrow> d = run_dir e"
    using assms tl absent(6) [of d]
    by (cases r) (auto simp: try_block_def publish_def split: if_splits)
qed

lemma main_telemetry:
  assumes "snd (main c e) \<noteq> Training"
  shows "count_list (fst (main c e)) WandbFinish = count_list (fst (main c e)) WandbInit"
proof -
  obtain evsT stT where t: "try_block c e True = (evsT, stT)"
    by (cases "try_block c e True") auto
  obtain evsF stF where f: "try_block c e False = (evsF, stF)"
    by (cases "try_block c e False") auto
  from assms t f try_block_props(1,2) [OF t] try_block_props(1,2) [OF f] show ?thesis
    by (auto simp: main_def connect_def Let_def split: option.splits if_splits)
qed

lemma main_cancelled:
  assumes "snd (main c e) = Failed KeyboardInterrupt"
  shows "Push \<notin> set (fst (main c e)) \<and> LogFinished \<notin> set (fst (main c e))
       \<and> LoadLocalModel d \<notin> set (fst (main c e))"
proof -
  obtain evsT stT where t: "try_block c e True = (evsT, stT)"
    by (cases "try_block c e True") auto
  obtain evsF stF where f: "try_block c e False = (evsF, stF)"
    by (cases "try_block c e False") auto
  from assms t f try_block_props(3) [OF t, of d] try_block_props(3) [OF f, of d] show ?thesis
    by (auto simp: main_def connect_def Let_def split: option.splits if_splits)
qed

lemma main_saves:
  assumes "SaveCheckpoint d \<in> set (fst (main c e))"
  shows "d = run_dir e"
proof -
  obtain evsT stT where t: "try_block c e True = (evsT, stT)"
    by (cases "try_block c e True") auto
  obtain evsF stF where f: "try_block c e False = (evsF, stF)"
    by (cases "try_block c e False") auto
  from assms t f try_block_props(4) [OF t, of d] try_block_props(4) [OF f, of d] show ?thesis
    by (auto simp: main_def connect_def Let_def split: option.splits if_splits)
qed

lemma flt_ge_not_lt: "flt_ge a b \<Longrightarrow> \<not> flt_lt a b"
  by (cases a; cases b) auto

lemma losses_map_Batch: "losses (map Batch ls) = ls"
  by (induction ls) simp_all

lemma epoch_body_saves:
  assumes "epoch_body c w dir bs v = (evs, err, v')"
  shows "count_list evs (SaveCheckpoint d) =
           (if err = None \<and> flt_lt (avg_loss_of (losses bs)) (best_avg_loss v) \<and> d = dir
            then 1 else 0)"
proof -
  have k: "accumulation_steps c \<noteq> 0" if "err = None"
    using epoch_body_ok_iff [OF assms] that by simp
  have nosave: "count_list bevs (SaveCheckpoint d) = 0" if "list_all loop_event bevs" for bevs
    using that by (auto simp: list_all_iff count_list_0_iff)
  from assms show ?thesis
  proof (cases rule: epoch_body_cases)
    case (raised bevs e)
    then show ?thesis using batches_loop_frame [OF raised(1)] nosave [of bevs]
      by simp
  next
    case (empty bevs)
    then show ?thesis using batches_loop_frame [OF empty(1)] nosave [of bevs]
      by simp
  next
    case (improved bevs v1)
    then show ?thesis
      using batches_loop_frame [OF improved(1)] batches_loop_vars [OF k improved(1)]
        nosave [of bevs]
      by (auto simp: epoch_start_def avg_loss_of_def)
  next
    case (kept bevs v1)
    then show ?thesis
      using batches_loop_frame [OF kept(1)] batches_loop_vars [OF k kept(1)]
        nosave [of bevs]
      by (auto simp: epoch_start_def avg_loss_of_def)
  qed
qed

lemma main_bootstrap_save:
  assumes "snd (connect c e) = None" and "constraints e (competition_id c) = Some mc"
  shows "SaveCheckpoint (run_dir e) \<in> set (fst (main c e))"
  using assms
  by (auto simp: main_def Let_def split: prod.splits option.splits)

lemma main_single_session:
  "count_list (fst (main c e)) WandbInit \<le> 1"
proof -
  obtain evsT stT where t: "try_block c e True = (evsT, stT)"
    by (cases "try_block c e True") auto
  obtain evsF stF where f: "try_block c e False = (evsF, stF)"
    by (cases "try_block c e False") auto
  from t f try_block_props(2) [OF t] try_block_props(2) [OF f] show ?thesis
    by (auto simp: main_def connect_def Let_def split: option.splits if_splits)
qed

lemmas demo_defs = demo_config_def demo_env_def main_def connect_def try_block_def epoch_body_def
  init_vars_def publish_def load_starting_model_def Let_def

section \<open>The claims\<close>

text \<open>
  Claim C1. When training has finished, the publish decision has three outcomes. Offline:
  the run logs that it does not upload, whatever \<^verbatim>\<open>best_avg_loss\<close> is. Online with
  \<^verbatim>\<open>best_avg_loss >= avg_loss_upload_threshold\<close>: it logs that the threshold was not met.
  Online with \<^verbatim>\<open>best_avg_loss\<close> strictly below the threshold: it reloads the checkpoint
  from the run directory and then pushes it; a reload or a push happens in no other case.
  The decision is taken on the \<^verbatim>\<open>best_avg_loss\<close> the loop finished with.
\<close>

theorem publish_decision:
  "(offline c \<longrightarrow> publish c e best = ([LogFinished, LogSkippedOffline], None))
   \<and> (\<not> offline c \<and> flt_ge best (avg_loss_upload_threshold c) \<longrightarrow>
        publish c e best = ([LogFinished, LogSkippedThreshold], None))
   \<and> (\<not> offline c \<and> flt_lt best (avg_loss_upload_threshold c) \<longrightarrow>
        fst (publish c e best) = [LogFinished, LogUploading, LoadLocalModel (run_dir e), Push])
   \<and> (Push \<in> set (fst (publish c e best)) \<or> LoadLocalModel d \<in> set (fst (publish c e best)) \<longrightarrow>
        \<not> offline c \<and> flt_lt best (avg_loss_upload_threshold c))
   \<and> (train_loop c w (run_dir e) (feed e) init_vars = (evs, Finished v) \<longrightarrow>
        fst (try_block c e w) =
          evs @ fst (publish c e (best_avg_loss v)) @ (if w then [WandbFinish] else []))"
proof -
  have "\<not> flt_lt best (avg_loss_upload_threshold c)"
    if "flt_ge best (avg_loss_upload_threshold c)"
    using that by (rule flt_ge_not_lt)
  then show ?thesis
    by (auto simp: publish_def try_block_def split: prod.splits option.splits)
qed

theorem publish_decision_witness:
  "offline (demo_config\<lparr>offline := True\<rparr>)
   \<and> publish (demo_config\<lparr>offline := True\<rparr>) demo_env (Fin (3 / 2))
     = ([LogFinished, LogSkippedOffline], None)
   \<and> \<not> offline demo_config
   \<and> flt_ge (Fin (5 / 2)) (avg_loss_upload_threshold demo_config)
   \<and> publish demo_config demo_env (Fin (5 / 2)) = ([LogFinished, LogSkippedThreshold], None)
   \<and> flt_lt (Fin (3 / 2)) (avg_loss_upload_threshold demo_config)
   \<and> fst (publish demo_config demo_env (Fin (3 / 2)))
     = [LogFinished, LogUploading, LoadLocalModel ''run'', Push]
   \<and> fst (try_block demo_config demo_env True)
     = fst (train_loop demo_config True ''run'' (feed demo_env) init_vars)
       @ [LogFinished, LogUploading, LoadLocalModel ''run'', Push] @ [WandbFinish]"
  using publish_decision [of "demo_config\<lparr>offline := True\<rparr>" demo_env "Fin (3 / 2)"]
    publish_decision [of demo_config demo_env "Fin (5 / 2)"]
    publish_decision [of demo_config demo_env "Fin (3 / 2)" _ True]
  by (simp add: demo_defs)

text \<open>
  Claim C2. An epoch whose loader yields no micro-batch fails when the average loss is
  computed: the division raises \<^verbatim>\<open>ZeroDivisionError\<close> (the specification calls it
  EmptyEpochError). The epoch has then emitted its begin message and the gradient reset
  only, so no checkpoint was written for it, and \<^verbatim>\<open>best_avg_loss\<close> and
  \<^verbatim>\<open>epoch_step\<close> are as before the epoch. This holds for the empty epoch wherever it
  stands in the run.
\<close>

theorem empty_epoch_raises:
  "epoch_body c w dir [] v = ([EpochBegin, ZeroGrad], Some ZeroDivisionError, epoch_start v)
   \<and> (train_loop c w dir es v = (evs, Running v1) \<longrightarrow>
        train_loop c w dir (es @ [] # rest) v =
          (evs @ [EpochBegin, ZeroGrad], Raised ZeroDivisionError (epoch_start v1))
        \<and> best_avg_loss (epoch_start v1) = best_avg_loss v1
        \<and> epoch_step (epoch_start v1) = epoch_step v1)"
proof -
  have e: "epoch_body c w dir [] v = ([EpochBegin, ZeroGrad], Some ZeroDivisionError, epoch_start v)"
    for v
    by (simp add: epoch_body_def epoch_start_def)
  have run: "epoch_step v1 < num_epochs c \<or> num_epochs c = -1"
    if "train_loop c w dir es v = (evs, Running v1)"
    using that
  proof (induction es arbitrary: v evs)
    case Nil
    then show ?case by (auto split: if_splits)
  next
    case (Cons bs es)
    then show ?case
      by (auto split: if_splits prod.splits option.splits)
  qed
  show ?thesis
    using e run
    by (auto simp: train_loop_append epoch_start_def)
qed

theorem empty_epoch_raises_witness:
  "train_loop demo_config False ''run'' [[Batch (Fin 3)]] init_vars =
     ([EpochBegin, ZeroGrad, Backward (0, 0), SaveCheckpoint ''run''],
      Running \<lparr>epoch_step = 1, global_step = 1, n_acc_steps = 0, best_avg_loss = Fin 3,
               epoch_loss = Fin 3, n_batches = 1, grads = [(0, 0)]\<rparr>)
   \<and> train_loop demo_config False ''run'' ([[Batch (Fin 3)]] @ [] # [[Batch (Fin 1)]]) init_vars =
     ([EpochBegin, ZeroGrad, Backward (0, 0), SaveCheckpoint ''run''] @ [EpochBegin, ZeroGrad],
      Raised ZeroDivisionError
        \<lparr>epoch_step = 1, global_step = 1, n_acc_steps = 0, best_avg_loss = Fin 3,
         epoch_loss = Fin 0, n_batches = 0, grads = []\<rparr>)"
  using empty_epoch_raises [where c = demo_config and w = False and dir = "''run''"
      and v = init_vars and es = "[[Batch (Fin 3)]]" and rest = "[[Batch (Fin 1)]]"]
  by (simp add: demo_defs epoch_start_def)

text \<open>
  Claim C3, as the code has it. When a cancellation (or any exception) leaves the training
  loop, the publish decision is not attempted: nothing is reloaded and nothing is pushed,
  whatever \<^verbatim>\<open>best_avg_loss\<close> was recorded, and the exception leaves \<^verbatim>\<open>main\<close>
  after the \<^verbatim>\<open>finally\<close> block. On every way out of the \<^verbatim>\<open>try\<close> block
  (normal completion, cancellation, an exception of the loop or of the push) the telemetry
  run, if one was started, is finished exactly once; a run that fails before the block
  has started none.
\<close>

theorem cancellation_propagates:
  "(snd (main c e) = Failed KeyboardInterrupt \<longrightarrow>
      Push \<notin> set (fst (main c e)) \<and> LogFinished \<notin> set (fst (main c e))
      \<and> LoadLocalModel d \<notin> set (fst (main c e)))
   \<and> (train_loop c w (run_dir e) (feed e) init_vars = (evs, Raised err v) \<longrightarrow>
        try_block c e w = (evs @ (if w then [WandbFinish] else []), Failed err))
   \<and> (snd (main c e) \<noteq> Training \<longrightarrow>
        count_list (fst (main c e)) WandbFinish = count_list (fst (main c e)) WandbInit)
   \<and> count_list (fst (main c e)) WandbInit \<le> 1"
  using main_cancelled [of c e d] main_telemetry [of c e] main_single_session [of c e]
  by (auto simp: try_block_def)

theorem cancellation_propagates_witness:
  "snd (main (demo_config\<lparr>num_epochs := -1\<rparr>)
          (demo_env\<lparr>feed := [[Batch (Fin 1), Batch (Fin 1)], [Batch (Fin 1), Interrupt]]\<rparr>))
     = Failed KeyboardInterrupt
   \<and> Push \<notin> set (fst (main (demo_config\<lparr>num_epochs := -1\<rparr>)
          (demo_env\<lparr>feed := [[Batch (Fin 1), Batch (Fin 1)], [Batch (Fin 1), Interrupt]]\<rparr>)))
   \<and> count_list (fst (main (demo_config\<lparr>num_epochs := -1\<rparr>)
          (demo_env\<lparr>feed := [[Batch (Fin 1), Batch (Fin 1)], [Batch (Fin 1), Interrupt]]\<rparr>)))
        WandbFinish = 1
   \<and> count_list (fst (main (demo_config\<lparr>num_epochs := -1\<rparr>)
          (demo_env\<lparr>feed := [[Batch (Fin 1), Batch (Fin 1)], [Batch (Fin 1), Interrupt]]\<rparr>)))
        WandbInit = 1"
  using cancellation_propagates [of "demo_config\<lparr>num_epochs := -1\<rparr>"
      "demo_env\<lparr>feed := [[Batch (Fin 1), Batch (Fin 1)], [Batch (Fin 1), Interrupt]]\<rparr>"]
  by (simp add: demo_defs)

text \<open>
  The claim as stated fails: in the run below the first epoch records
  \<^verbatim>\<open>best_avg_loss = 1\<close>, below the threshold 2, online; the second epoch is
  interrupted, and the run ends with the interrupt and without a push. The same first
  epoch followed by the end of the budget is published.
\<close>

theorem cancelled_run_counterexample:
  "train_loop (demo_config\<lparr>num_epochs := -1\<rparr>) True ''run''
       [[Batch (Fin 1), Batch (Fin 1)], [Batch (Fin 1), Interrupt]] init_vars =
     ([EpochBegin, ZeroGrad, Backward (0, 0), Backward (0, 1), OptimizerStep [(0, 0), (0, 1)],
       ZeroGrad, WandbLog, SaveCheckpoint ''run'', EpochBegin, ZeroGrad, Backward (1, 0)],
      Raised KeyboardInterrupt
        \<lparr>epoch_step = 1, global_step = 3, n_acc_steps = 1, best_avg_loss = Fin 1,
         epoch_loss = Fin 1, n_batches = 1, grads = [(1, 0)]\<rparr>)
   \<and> flt_lt (Fin 1) (avg_loss_upload_threshold (demo_config\<lparr>num_epochs := -1\<rparr>))
   \<and> \<not> offline (demo_config\<lparr>num_epochs := -1\<rparr>)
   \<and> main (demo_config\<lparr>num_epochs := -1\<rparr>)
        (demo_env\<lparr>feed := [[Batch (Fin 1), Batch (Fin 1)], [Batch (Fin 1), Interrupt]]\<rparr>) =
     ([CreateWallet, ConnectSubtensor, SyncMetagraph, AssertRegistered, AssertAccessToken,
       MakeDirs ''run'', LoadTokenizer, LoadModel BestModel, SaveCheckpoint ''run'',
       WandbLogin, WandbInit, WandbSave,
       EpochBegin, ZeroGrad, Backward (0, 0), Backward (0, 1), OptimizerStep [(0, 0), (0, 1)],
       ZeroGrad, WandbLog, SaveCheckpoint ''run'', EpochBegin, ZeroGrad, Backward (1, 0),
       WandbFinish],
      Failed KeyboardInterrupt)
   \<and> main (demo_config\<lparr>num_epochs := 1\<rparr>)
        (demo_env\<lparr>feed := [[Batch (Fin 1), Batch (Fin 1)]]\<rparr>) =
     ([CreateWallet, ConnectSubtensor, SyncMetagraph, AssertRegistered, AssertAccessToken,
       MakeDirs ''run'', LoadTokenizer, LoadModel BestModel, SaveCheckpoint ''run'',
       WandbLogin, WandbInit, WandbSave,
       EpochBegin, ZeroGrad, Backward (0, 0), Backward (0, 1), OptimizerStep [(0, 0), (0, 1)],
       ZeroGrad, WandbLog, SaveCheckpoint ''run'',
       LogFinished, LogUploading, LoadLocalModel ''run'', Push, WandbFinish],
      Returned)"
  by (simp add: demo_defs)

text \<open>
  Claim C4, as the code has it. With a competition id that has no constraints, a run that
  is offline or passes the online checks fails with \<^verbatim>\<open>RuntimeError\<close> (the
  specification calls it UnknownCompetition) after the wallet, the chain connection, the
  metagraph download, the online checks and the creation of the run directory, and before
  the tokenizer is loaded, any model is loaded, the first checkpoint is saved and a
  telemetry run is started.
\<close>

theorem unknown_competition_aborts:
  assumes "constraints e (competition_id c) = None"
    and "offline c \<or> (registered e \<and> hf_access_token e)"
  shows "main c e = (fst (connect c e), Failed RuntimeError)
       \<and> fst (connect c e) =
           [CreateWallet, ConnectSubtensor, SyncMetagraph]
           @ (if offline c then [] else [AssertRegistered, AssertAccessToken])
           @ [MakeDirs (run_dir e)]
       \<and> LoadTokenizer \<notin> set (fst (main c e))
       \<and> LoadModel s \<notin> set (fst (main c e))
       \<and> SaveCheckpoint d \<notin> set (fst (main c e))
       \<and> WandbInit \<notin> set (fst (main c e))"
  using assms by (auto simp: main_def connect_def)

theorem unknown_competition_aborts_witness:
  "constraints demo_env (competition_id (demo_config\<lparr>competition_id := 7\<rparr>)) = None
   \<and> registered demo_env \<and> hf_access_token demo_env
   \<and> main (demo_config\<lparr>competition_id := 7\<rparr>) demo_env =
       ([CreateWallet, ConnectSubtensor, SyncMetagraph, AssertRegistered, AssertAccessToken,
         MakeDirs ''run''], Failed RuntimeError)
   \<and> LoadModel BestModel \<notin> set (fst (main (demo_config\<lparr>competition_id := 7\<rparr>) demo_env))"
proof -
  have h1: "constraints demo_env (competition_id (demo_config\<lparr>competition_id := 7\<rparr>)) = None"
    by (simp add: demo_defs)
  have h2: "offline (demo_config\<lparr>competition_id := 7\<rparr>)
      \<or> (registered demo_env \<and> hf_access_token demo_env)"
    by (simp add: demo_defs)
  from unknown_competition_aborts [OF h1 h2, of BestModel] show ?thesis
    by (simp add: demo_defs)
qed

text \<open>
  The claim as stated fails: with the unknown competition 7 the run has connected to the
  chain and downloaded the metagraph before it fails, online and offline alike.
\<close>

theorem unknown_competition_counterexample:
  "constraints demo_env (competition_id (demo_config\<lparr>competition_id := 7\<rparr>)) = None
   \<and> main (demo_config\<lparr>competition_id := 7\<rparr>) demo_env =
       ([CreateWallet, ConnectSubtensor, SyncMetagraph, AssertRegistered, AssertAccessToken,
         MakeDirs ''run''], Failed RuntimeError)
   \<and> filter network_io (fst (main (demo_config\<lparr>competition_id := 7\<rparr>) demo_env)) =
       [ConnectSubtensor, SyncMetagraph]
   \<and> constraints demo_env (competition_id (demo_config\<lparr>competition_id := 7, offline := True\<rparr>))
       = None
   \<and> main (demo_config\<lparr>competition_id := 7, offline := True\<rparr>) demo_env =
       ([CreateWallet, ConnectSubtensor, SyncMetagraph, MakeDirs ''run''], Failed RuntimeError)"
  by (simp add: demo_defs)

text \<open>
  Claim C5. In an epoch of \<open>m\<close> micro-batches with \<^verbatim>\<open>accumulation_steps = k > 0\<close>
  there are exactly \<open>m div k\<close> optimizer steps. They happen at the micro-batches whose
  1-indexed position is a multiple of \<open>k\<close>, each on the gradients of the \<open>k\<close>
  micro-batches up to that position, and \<^verbatim>\<open>n_acc_steps\<close> grows by \<open>m div k\<close>. The
  micro-batches after the last multiple of \<open>k\<close> are left in the gradient buffer and
  trigger no step in the epoch.
\<close>

theorem optimizer_applies_per_epoch:
  assumes "0 < accumulation_steps c"
    and "epoch_body c w dir (map Batch ls) v = (evs, err, v')"
  shows "n_batches v' = length ls
       \<and> length (opt_steps evs) = length ls div nat (accumulation_steps c)
       \<and> opt_steps evs =
           map (window (epoch_step v) (nat (accumulation_steps c)))
             [j \<leftarrow> [0 ..< length ls]. (int j + 1) mod accumulation_steps c = 0]
       \<and> n_acc_steps v' = n_acc_steps v + length ls div nat (accumulation_steps c)
       \<and> grads v' = map (Pair (epoch_step v))
           [length ls div nat (accumulation_steps c) * nat (accumulation_steps c) ..< length ls]"
proof -
  let ?k = "accumulation_steps c"
  have k: "?k \<noteq> 0" and a: "\<bar>?k\<bar> = ?k"
    using assms(1) by simp_all
  have filt: "[j \<leftarrow> [0 ..< length ls]. (int j + 1) mod ?k = 0]
      = [j \<leftarrow> [0 ..< length ls]. Suc j mod nat ?k = 0]"
    using mod_bridge [OF k] a by simp
  have steps: "opt_steps evs =
      map (window (epoch_step v) (nat ?k)) [j \<leftarrow> [0 ..< length ls]. Suc j mod nat ?k = 0]"
    using epoch_body_opt_steps [OF assms(2)] k a by (simp add: losses_map_Batch)
  have "length (opt_steps evs) = length ls div nat ?k"
    using steps by (simp add: count_applies)
  moreover have "n_acc_steps v' = n_acc_steps v + length ls div nat ?k"
    using epoch_body_counters(1) [OF k assms(2)] a by (simp add: losses_map_Batch)
  moreover have "grads v' = map (Pair (epoch_step v))
      [length ls div nat ?k * nat ?k ..< length ls]"
    using epoch_body_counters(2) [OF k assms(2)] a by (simp add: losses_map_Batch)
  moreover have "n_batches v' = length ls"
    using epoch_body_counters(4) [OF k assms(2)] by (simp add: losses_map_Batch)
  ultimately show ?thesis
    using steps filt by simp
qed

theorem optimizer_applies_per_epoch_witness:
  "0 < accumulation_steps demo_config
   \<and> epoch_body demo_config False ''run'' (map Batch [Fin 3, Fin 2, Fin 1, Fin 2, Fin 2]) init_vars =
       ([EpochBegin, ZeroGrad, Backward (0, 0), Backward (0, 1), OptimizerStep [(0, 0), (0, 1)],
         ZeroGrad, Backward (0, 2), Backward (0, 3), OptimizerStep [(0, 2), (0, 3)], ZeroGrad,
         Backward (0, 4), SaveCheckpoint ''run''],
        None,
        \<lparr>epoch_step = 1, global_step = 5, n_acc_steps = 2, best_avg_loss = Fin 2,
         epoch_loss = Fin 10, n_batches = 5, grads = [(0, 4)]\<rparr>)
   \<and> length (opt_steps
        [EpochBegin, ZeroGrad, Backward (0, 0), Backward (0, 1), OptimizerStep [(0, 0), (0, 1)],
         ZeroGrad, Backward (0, 2), Backward (0, 3), OptimizerStep [(0, 2), (0, 3)], ZeroGrad,
         Backward (0, 4), SaveCheckpoint ''run'']) = 5 div 2"
proof -
  have h1: "0 < accumulation_steps demo_config"
    by (simp add: demo_defs)
  have h2: "epoch_body demo_config False ''run'' (map Batch [Fin 3, Fin 2, Fin 1, Fin 2, Fin 2])
      init_vars =
       ([EpochBegin, ZeroGrad, Backward (0, 0), Backward (0, 1), OptimizerStep [(0, 0), (0, 1)],
         ZeroGrad, Backward (0, 2), Backward (0, 3), OptimizerStep [(0, 2), (0, 3)], ZeroGrad,
         Backward (0, 4), SaveCheckpoint ''run''],
        None,
        \<lparr>epoch_step = 1, global_step = 5, n_acc_steps = 2, best_avg_loss = Fin 2,
         epoch_loss = Fin 10, n_batches = 5, grads = [(0, 4)]\<rparr>)"
    by (simp add: demo_defs)
  from optimizer_applies_per_epoch [OF h1 h2] h1 h2 show ?thesis
    by (simp add: demo_config_def)
qed

text \<open>
  Claim C6. \<^verbatim>\<open>best_avg_loss\<close> starts at plus infinity. After more epochs of a run it
  is never larger than after fewer. An epoch overwrites it only when the epoch completes
  with an average loss strictly smaller than it, and then with that average.
\<close>

theorem best_avg_loss_non_increasing:
  "best_avg_loss init_vars = PInf
   \<and> flt_le (best_avg_loss (vars_of (snd (train_loop c w dir (es1 @ es2) v))))
            (best_avg_loss (vars_of (snd (train_loop c w dir es1 v))))
   \<and> (epoch_body c w dir bs v = (evs, err, v') \<longrightarrow>
        best_avg_loss v' =
          (if err = None \<and> flt_lt (avg_loss_of (losses bs)) (best_avg_loss v)
           then avg_loss_of (losses bs) else best_avg_loss v))"
proof -
  obtain evs1 r1 where r1: "train_loop c w dir es1 v = (evs1, r1)"
    by (cases "train_loop c w dir es1 v") auto
  have "flt_le (best_avg_loss (vars_of (snd (train_loop c w dir (es1 @ es2) v))))
      (best_avg_loss (vars_of r1))"
  proof (cases r1)
    case (Running v1)
    with r1 train_loop_best [of c w dir es2 v1] show ?thesis
      by (auto simp: train_loop_append split: prod.splits)
  next
    case (Finished v1)
    with r1 show ?thesis
      by (simp add: train_loop_append flt_le_refl)
  next
    case (Raised e v1)
    with r1 show ?thesis
      by (simp add: train_loop_append flt_le_refl)
  qed
  with r1 epoch_body_best(1) [of c w dir bs v evs err v'] show ?thesis
    by (simp add: init_vars_def)
qed

theorem best_avg_loss_non_increasing_witness:
  "best_avg_loss (vars_of (snd (train_loop demo_config False ''run''
       [[Batch (Fin 3), Batch (Fin 2), Batch (Fin 1)]] init_vars))) = Fin 2
   \<and> best_avg_loss (vars_of (snd (train_loop demo_config False ''run''
       ([[Batch (Fin 3), Batch (Fin 2), Batch (Fin 1)]] @ [[Batch (Fin 1), Batch (Fin 1)]])
       init_vars))) = Fin 1
   \<and> flt_le (Fin 1) (Fin 2)
   \<and> epoch_body demo_config False ''run'' [Batch (Fin 4)]
        (init_vars\<lparr>best_avg_loss := Fin 2\<rparr>) =
       ([EpochBegin, ZeroGrad, Backward (0, 0)], None,
        \<lparr>epoch_step = 1, global_step = 1, n_acc_steps = 0, best_avg_loss = Fin 2,
         epoch_loss = Fin 4, n_batches = 1, grads = [(0, 0)]\<rparr>)"
  using best_avg_loss_non_increasing [where c = demo_config and w = False and dir = "''run''"
      and ?es1.0 = "[[Batch (Fin 3), Batch (Fin 2), Batch (Fin 1)]]"
      and ?es2.0 = "[[Batch (Fin 1), Batch (Fin 1)]]" and v = init_vars
      and bs = "[Batch (Fin 4)]"]
  by (simp add: demo_defs flt_le_def)

text \<open>
  Claim C7. A completed epoch writes the checkpoint, once, if and only if its average loss
  is strictly smaller than \<^verbatim>\<open>best_avg_loss\<close> before the epoch; an epoch that raises
  writes none. A run that gets as far as loading its model saves it first, and every
  write of the run goes to the one run directory, over the previous checkpoint.
\<close>

theorem checkpoint_write_iff_improved:
  "(epoch_body c w dir bs v = (evs, None, v') \<longrightarrow>
      count_list evs (SaveCheckpoint dir) =
        (if flt_lt (avg_loss_of (losses bs)) (best_avg_loss v) then 1 else 0)
      \<and> (SaveCheckpoint dir \<in> set evs) = flt_lt (avg_loss_of (losses bs)) (best_avg_loss v))
   \<and> (epoch_body c w dir bs v = (evs, Some er, v') \<longrightarrow> SaveCheckpoint d \<notin> set evs)
   \<and> (snd (connect c e) = None \<and> constraints e (competition_id c) = Some mc \<longrightarrow>
        SaveCheckpoint (run_dir e) \<in> set (fst (main c e)))
   \<and> (SaveCheckpoint d \<in> set (fst (main c e)) \<longrightarrow> d = run_dir e)"
proof -
  have "count_list evs (SaveCheckpoint dir) =
        (if flt_lt (avg_loss_of (losses bs)) (best_avg_loss v) then 1 else 0)
      \<and> (SaveCheckpoint dir \<in> set evs) = flt_lt (avg_loss_of (losses bs)) (best_avg_loss v)"
    if "epoch_body c w dir bs v = (evs, None, v')"
    using epoch_body_saves [OF that, of dir] epoch_body_best(3) [OF that, of dir] by simp
  moreover have "SaveCheckpoint d \<notin> set evs"
    if "epoch_body c w dir bs v = (evs, Some er, v')"
    using epoch_body_best(3) [OF that, of d] by simp
  ultimately show ?thesis
    using main_saves [of d c e] main_bootstrap_save [of c e mc] by blast
qed

theorem checkpoint_write_iff_improved_witness:
  "epoch_body demo_config False ''run'' [Batch (Fin 3), Batch (Fin 1)]
        (init_vars\<lparr>best_avg_loss := Fin 3\<rparr>) =
       ([EpochBegin, ZeroGrad, Backward (0, 0), Backward (0, 1), OptimizerStep [(0, 0), (0, 1)],
         ZeroGrad, SaveCheckpoint ''run''], None,
        \<lparr>epoch_step = 1, global_step = 2, n_acc_steps = 1, best_avg_loss = Fin 2,
         epoch_loss = Fin 4, n_batches = 2, grads = []\<rparr>)
   \<and> avg_loss_of (losses [Batch (Fin 3), Batch (Fin 1)]) = Fin 2
   \<and> flt_lt (Fin 2) (Fin 3)
   \<and> epoch_body demo_config False ''run'' [Batch (Fin 3), Batch (Fin 1)]
        (init_vars\<lparr>best_avg_loss := Fin 2\<rparr>) =
       ([EpochBegin, ZeroGrad, Backward (0, 0), Backward (0, 1), OptimizerStep [(0, 0), (0, 1)],
         ZeroGrad], None,
        \<lparr>epoch_step = 1, global_step = 2, n_acc_steps = 1, best_avg_loss = Fin 2,
         epoch_loss = Fin 4, n_batches = 2, grads = []\<rparr>)
   \<and> \<not> flt_lt (Fin 2) (Fin 2)
   \<and> epoch_body demo_config False ''run'' [Batch (Fin 1), Interrupt] init_vars =
       ([EpochBegin, ZeroGrad, Backward (0, 0)], Some KeyboardInterrupt,
        \<lparr>epoch_step = 0, global_step = 1, n_acc_steps = 0, best_avg_loss = PInf,
         epoch_loss = Fin 1, n_batches = 1, grads = [(0, 0)]\<rparr>)
   \<and> snd (connect demo_config demo_env) = None
   \<and> constraints demo_env (competition_id demo_config) = Some []
   \<and> SaveCheckpoint ''run'' \<in> set (fst (main demo_config demo_env))"
  using checkpoint_write_iff_improved [where c = demo_config and w = False and dir = "''run''"
      and bs = "[Batch (Fin 3), Batch (Fin 1)]" and v = "init_vars\<lparr>best_avg_loss := Fin 3\<rparr>"
      and e = demo_env and mc = "[]"]
  by (simp add: demo_defs avg_loss_of_def)

text \<open>
  Claim C8. \<^verbatim>\<open>load_starting_model\<close> takes the first of the sources whose selector is
  set, in the order best-on-network, specific-participant, local-directory, local-file,
  from-scratch, however many are set. With the best-on-network and the local-file
  selectors both set it takes best-on-network. (A selector holding the empty string counts
  as not set, as in Python.)
\<close>

theorem starting_model_priority:
  "load_starting_model c = hd (spec_selected_sources c)
   \<and> (load_best c \<and> truthy (load_model c) \<longrightarrow> load_starting_model c = BestModel)"
  by (simp add: load_starting_model_def spec_selected_sources_def split: option.splits)

theorem starting_model_priority_witness:
  "load_best demo_config \<and> truthy (load_model demo_config)
   \<and> spec_selected_sources demo_config = [BestModel, Gpt2Model ''model.safetensors'', FromScratch]
   \<and> load_starting_model demo_config = BestModel"
  using starting_model_priority [of demo_config]
  by (simp add: demo_config_def spec_selected_sources_def)

text \<open>
  Claim C9. With a budget \<open>N \<ge> 0\<close> and a feed of at least \<open>N\<close> epochs, each
  completing, the loop runs exactly \<open>N\<close> epochs and then finishes. With the budget
  \<open>-1\<close> the loop never finishes by its condition: it runs every epoch that the feed
  has and is still running after them.
\<close>

theorem epoch_budget:
  "(0 \<le> num_epochs c \<and> accumulation_steps c \<noteq> 0
      \<and> (\<forall>bs \<in> set es. \<not> interrupted bs \<and> losses bs \<noteq> [])
      \<and> nat (num_epochs c) \<le> length es \<longrightarrow>
      (\<exists>evs v'. train_loop c w dir es init_vars = (evs, Finished v')
         \<and> epoch_step v' = num_epochs c
         \<and> count_list evs EpochBegin = nat (num_epochs c)))
   \<and> (num_epochs c = -1 \<longrightarrow> train_loop c w dir es v \<noteq> (evs0, Finished v0))
   \<and> (num_epochs c = -1 \<and> accumulation_steps c \<noteq> 0
      \<and> (\<forall>bs \<in> set es. \<not> interrupted bs \<and> losses bs \<noteq> []) \<longrightarrow>
      (\<exists>evs v'. train_loop c w dir es v = (evs, Running v')
         \<and> epoch_step v' = epoch_step v + int (length es)
         \<and> count_list evs EpochBegin = length es))"
proof -
  have "\<exists>evs v'. train_loop c w dir es init_vars = (evs, Finished v')
         \<and> epoch_step v' = num_epochs c
         \<and> count_list evs EpochBegin = nat (num_epochs c)"
    if "0 \<le> num_epochs c" and "accumulation_steps c \<noteq> 0"
      and "\<forall>bs \<in> set es. \<not> interrupted bs \<and> losses bs \<noteq> []"
      and "nat (num_epochs c) \<le> length es"
    using train_loop_budget [of c es init_vars w dir] that
    by (simp add: init_vars_def)
  then show ?thesis
    using train_loop_unbounded [of c w dir es v evs0 v0]
      train_loop_unbounded_runs [of c es w dir v]
    by blast
qed

theorem epoch_budget_witness:
  "train_loop (demo_config\<lparr>num_epochs := 3\<rparr>) False ''run''
       [[Batch (Fin 1)], [Batch (Fin 1)], [Batch (Fin 1)], [Batch (Fin 1)]] init_vars =
     ([EpochBegin, ZeroGrad, Backward (0, 0), SaveCheckpoint ''run'',
       EpochBegin, ZeroGrad, Backward (1, 0), EpochBegin, ZeroGrad, Backward (2, 0)],
      Finished \<lparr>epoch_step = 3, global_step = 3, n_acc_steps = 0, best_avg_loss = Fin 1,
               epoch_loss = Fin 1, n_batches = 1, grads = [(2, 0)]\<rparr>)
   \<and> train_loop (demo_config\<lparr>num_epochs := -1\<rparr>) False ''run''
       [[Batch (Fin 1)], [Batch (Fin 1)], [Batch (Fin 1)], [Batch (Fin 1)]] init_vars =
     ([EpochBegin, ZeroGrad, Backward (0, 0), SaveCheckpoint ''run'',
       EpochBegin, ZeroGrad, Backward (1, 0), EpochBegin, ZeroGrad, Backward (2, 0),
       EpochBegin, ZeroGrad, Backward (3, 0)],
      Running \<lparr>epoch_step = 4, global_step = 4, n_acc_steps = 0, best_avg_loss = Fin 1,
               epoch_loss = Fin 1, n_batches = 1, grads = [(3, 0)]\<rparr>)"
  using epoch_budget [where c = "demo_config\<lparr>num_epochs := 3\<rparr>" and w = False
      and dir = "''run''"
      and es = "[[Batch (Fin 1)], [Batch (Fin 1)], [Batch (Fin 1)], [Batch (Fin 1)]]"]
    epoch_budget [where c = "demo_config\<lparr>num_epochs := -1\<rparr>" and w = False
      and dir = "''run''" and v = init_vars
      and es = "[[Batch (Fin 1)], [Batch (Fin 1)], [Batch (Fin 1)], [Batch (Fin 1)]]"]
  by (simp add: demo_defs)

text \<open>
  Claim C10. Every epoch clears the gradients before its first micro-batch, so what an
  epoch emits does not depend on the gradients left over when it starts. In a whole run,
  a micro-batch that comes after the last optimizer step of its epoch is in the gradients
  of no optimizer step, in that epoch or a later one.
\<close>

theorem tail_gradients_discarded:
  "fst (epoch_body c w dir bs (v\<lparr>grads := g\<rparr>)) = fst (epoch_body c w dir bs v)
   \<and> take 2 (fst (epoch_body c w dir bs v)) = [EpochBegin, ZeroGrad]
   \<and> (train_loop c w dir es v = (evs, r) \<and> n < length es
        \<and> length (losses (es ! n)) div nat \<bar>accumulation_steps c\<bar> * nat \<bar>accumulation_steps c\<bar> \<le> i
        \<and> gs \<in> set (opt_steps evs) \<longrightarrow>
      (epoch_step v + int n, i) \<notin> set gs)"
proof -
  have a: "fst (epoch_body c w dir bs (v\<lparr>grads := g\<rparr>)) = fst (epoch_body c w dir bs v)"
    by (simp add: epoch_body_def Let_def split: prod.splits option.splits)
  obtain evs1 err1 v1 where eb: "epoch_body c w dir bs v = (evs1, err1, v1)"
    by (cases "epoch_body c w dir bs v") auto
  have b: "take 2 (fst (epoch_body c w dir bs v)) = [EpochBegin, ZeroGrad]"
    using epoch_body_begins [OF eb] eb by simp
  have "(epoch_step v + int n, i) \<notin> set gs"
    if tl: "train_loop c w dir es v = (evs, r)" and n: "n < length es"
      and i: "length (losses (es ! n)) div nat \<bar>accumulation_steps c\<bar>
                * nat \<bar>accumulation_steps c\<bar> \<le> i"
      and gs: "gs \<in> set (opt_steps evs)"
  proof
    assume "(epoch_step v + int n, i) \<in> set gs"
    from train_loop_contributors [OF tl gs this]
    obtain n' where "epoch_step v + int n = epoch_step v + int n'"
      and "i < length (losses (es ! n')) div nat \<bar>accumulation_steps c\<bar>
                * nat \<bar>accumulation_steps c\<bar>"
      by blast
    with i show False by simp
  qed
  with a b show ?thesis by blast
qed

theorem tail_gradients_discarded_witness:
  "train_loop demo_config False ''run'' (feed demo_env) init_vars =
     ([EpochBegin, ZeroGrad, Backward (0, 0), Backward (0, 1), OptimizerStep [(0, 0), (0, 1)],
       ZeroGrad, Backward (0, 2), SaveCheckpoint ''run'',
       EpochBegin, ZeroGrad, Backward (1, 0), Backward (1, 1), OptimizerStep [(1, 0), (1, 1)],
       ZeroGrad, SaveCheckpoint ''run''],
      Finished \<lparr>epoch_step = 2, global_step = 5, n_acc_steps = 2, best_avg_loss = Fin 1,
               epoch_loss = Fin 2, n_batches = 2, grads = []\<rparr>)
   \<and> length (losses (feed demo_env ! 0)) div nat \<bar>accumulation_steps demo_config\<bar>
        * nat \<bar>accumulation_steps demo_config\<bar> = 2
   \<and> [(1, 0), (1, 1)] \<in> set (opt_steps (fst
        (train_loop demo_config False ''run'' (feed demo_env) init_vars)))
   \<and> (epoch_step init_vars + int 0, 2) \<notin> set [(1, 0), (1, 1 :: nat)]"
  using tail_gradients_discarded [where c = demo_config and w = False and dir = "''run''"
      and es = "feed demo_env" and v = init_vars and n = 0 and i = 2
      and gs = "[(1, 0), (1, 1)]"]
  by (simp add: demo_defs)

end
